theory Spec2Isabelle
  imports Complex_Main "HOL-Library.Sublist"
begin

section \<open>Strings, errors and the fragment of Python's \<open>re\<close> the script uses\<close>

text \<open>
  A Python \<open>str\<close> is modelled as the list of its code points, restricted to code
  points below 256 (one \<^typ>\<open>char\<close> each).  Exceptions are values: a function that
  may raise returns \<open>error + 'a\<close>.  \<open>ReplError\<close> stands for the exception raised
  by \<open>re\<close> while it parses a replacement template (\<open>re.error\<close>, or
  \<open>IndexError\<close> for an unknown group name); \<open>Unmodelled\<close> marks a pattern that
  lies outside the fragment of the pattern language embedded below.
\<close>

datatype error = RuntimeError | IndexError | FileNotFoundError | ReplError | Unmodelled

abbreviation newline :: char where "newline \<equiv> CHR 0x0A"
abbreviation backslash :: char where "backslash \<equiv> CHR 0x5C"

definition isspace :: "char \<Rightarrow> bool" where
  \<comment> \<open>\<open>str.isspace\<close> on code points below 256, which is what \<open>\s\<close> tests in a
     \<open>str\<close> pattern.\<close>
  "isspace c = (c \<in> set [CHR 0x09, CHR 0x0A, CHR 0x0B, CHR 0x0C, CHR 0x0D,
                           CHR 0x1C, CHR 0x1D, CHR 0x1E, CHR 0x1F, CHR 0x20,
                           CHR 0x85, CHR 0xA0])"

definition special :: "char \<Rightarrow> bool" where
  \<comment> \<open>The characters with a meaning of their own in a pattern.\<close>
  "special c = (c \<in> set [CHR ''.'', CHR ''^'', CHR ''$'', CHR ''*'', CHR ''+'', CHR ''?'',
                           CHR ''{'', CHR ''}'', CHR ''['', CHR '']'', backslash, CHR ''|'',
                           CHR ''('', CHR '')''])"

definition quantifier :: "char \<Rightarrow> bool" where
  "quantifier c = (c \<in> set [CHR ''*'', CHR ''+'', CHR ''?'', CHR ''{''])"

definition no_quant :: "string \<Rightarrow> bool" where
  "no_quant s = (case s of [] \<Rightarrow> True | q # _ \<Rightarrow> \<not> quantifier q)"

text \<open>
  The patterns of the script are built from literal characters, \<open>\s\<close>, escaped
  punctuation, one capturing group and a greedy \<open>.*\<close>.
\<close>

datatype re_item = Literal char | Space | DotStar | GroupOpen | GroupClose

definition cons_opt :: "'a \<Rightarrow> 'a list option \<Rightarrow> 'a list option" where
  "cons_opt x r = (case r of None \<Rightarrow> None | Some xs \<Rightarrow> Some (x # xs))"

text \<open>
  \<open>re_parse g p\<close> reads the pattern text \<open>p\<close>; \<open>g\<close> says whether a group is open.
  Anything outside the fragment (classes, anchors, alternation, other quantifiers,
  nested or unbalanced groups, other escapes) gives \<open>None\<close>.
\<close>

fun re_parse :: "bool \<Rightarrow> string \<Rightarrow> re_item list option" where
  "re_parse g [] = (if g then None else Some [])"
| "re_parse g (c # s) =
    (if c = backslash then
       (case s of
          [] \<Rightarrow> None
        | d # t \<Rightarrow>
            if \<not> no_quant t then None
            else if d = CHR ''s'' then cons_opt Space (re_parse g t)
            else if special d then cons_opt (Literal d) (re_parse g t)
            else None)
     else if c = CHR ''.'' then
       (case s of
          [] \<Rightarrow> None
        | d # t \<Rightarrow>
            if d = CHR ''*'' \<and> no_quant t then cons_opt DotStar (re_parse g t) else None)
     else if c = CHR ''('' then
       (if g \<or> \<not> no_quant s then None else cons_opt GroupOpen (re_parse True s))
     else if c = CHR '')'' then
       (if g \<and> no_quant s then cons_opt GroupClose (re_parse False s) else None)
     else if special c \<or> \<not> no_quant s then None
     else cons_opt (Literal c) (re_parse g s))"

definition re_compile :: "string \<Rightarrow> re_item list option" where
  "re_compile p = re_parse False p"

text \<open>
  The backtracking matcher.  \<open>match_here r s\<close> tries \<open>r\<close> at the start of \<open>s\<close> and
  returns the number of characters consumed together with the offsets at which the
  group markers were passed.  \<open>.*\<close> is greedy: it first takes one more character
  (any but a newline) and only when the rest then fails does it stop here.
\<close>

definition advance :: "(nat \<times> nat list) option \<Rightarrow> (nat \<times> nat list) option" where
  "advance m = (case m of None \<Rightarrow> None | Some (n, ms) \<Rightarrow> Some (Suc n, map Suc ms))"

definition mark :: "(nat \<times> nat list) option \<Rightarrow> (nat \<times> nat list) option" where
  "mark m = (case m of None \<Rightarrow> None | Some (n, ms) \<Rightarrow> Some (n, 0 # ms))"

fun match_here :: "re_item list \<Rightarrow> string \<Rightarrow> (nat \<times> nat list) option" where
  "match_here [] s = Some (0, [])"
| "match_here (Literal c # r) s =
     (case s of [] \<Rightarrow> None | x # xs \<Rightarrow> if x = c then advance (match_here r xs) else None)"
| "match_here (Space # r) s =
     (case s of [] \<Rightarrow> None | x # xs \<Rightarrow> if isspace x then advance (match_here r xs) else None)"
| "match_here (GroupOpen # r) s = mark (match_here r s)"
| "match_here (GroupClose # r) s = mark (match_here r s)"
| "match_here (DotStar # r) s =
     (case s of
        [] \<Rightarrow> match_here r s
      | x # xs \<Rightarrow>
          if x \<noteq> newline then
            (case advance (match_here (DotStar # r) xs) of
               Some m \<Rightarrow> Some m
             | None \<Rightarrow> match_here r s)
          else match_here r s)"

fun groups :: "nat list \<Rightarrow> string \<Rightarrow> string list" where
  "groups (a # b # ms) s = take (b - a) (drop a s) # groups ms s"
| "groups ms s = []"

definition re_match :: "re_item list \<Rightarrow> string \<Rightarrow> string list option" where
  \<comment> \<open>\<open>Pattern.match\<close>: the pattern is tried at position 0 only; the result is
     \<open>groups()\<close> of the match object.\<close>
  "re_match r s = (case match_here r s of None \<Rightarrow> None | Some (n, ms) \<Rightarrow> Some (groups ms s))"

text \<open>
  Scanning for all matches, left to right, as \<open>findall\<close> and \<open>sub\<close> do: where the
  pattern matches, the match is recorded and the scan resumes at its end; elsewhere
  the character is passed over.  An empty match is recorded in front of the
  character it stands before.
\<close>

datatype piece = Gap char | Hit string "string list"

function scan :: "re_item list \<Rightarrow> string \<Rightarrow> piece list" where
  "scan r [] =
     (case match_here r [] of None \<Rightarrow> [] | Some (n, ms) \<Rightarrow> [Hit [] (groups ms [])])"
| "scan r (c # cs) =
     (case match_here r (c # cs) of
        None \<Rightarrow> Gap c # scan r cs
      | Some (n, ms) \<Rightarrow>
          if n = 0 then Hit [] (groups ms (c # cs)) # Gap c # scan r cs
          else Hit (take n (c # cs)) (groups ms (c # cs)) # scan r (drop n (c # cs)))"
  by pat_completeness auto
termination
  by (relation "measure (\<lambda>(r, s). length s)") auto

definition findall :: "re_item list \<Rightarrow> string \<Rightarrow> string list" where
  \<comment> \<open>With one group the list holds that group of every match, with none the
     matches themselves.\<close>
  "findall r s =
     concat (map (\<lambda>p. case p of Gap c \<Rightarrow> [] | Hit m gs \<Rightarrow> [case gs of [] \<Rightarrow> m | g # _ \<Rightarrow> g])
                 (scan r s))"

definition re_findall :: "string \<Rightarrow> string \<Rightarrow> error + string list" where
  "re_findall pattern s =
     (case re_compile pattern of None \<Rightarrow> Inl Unmodelled | Some r \<Rightarrow> Inr (findall r s))"

subsection \<open>Replacement templates\<close>

text \<open>
  \<open>re.sub\<close> does not insert its replacement argument as it is: it parses it as a
  template, in which a backslash starts an escape or a group reference.  The
  template is parsed before the text is searched, so a malformed one raises even
  when nothing matches.  The group-name rules are those of Python 3.12.
\<close>

datatype tpl = TLit char | TGroup nat

definition digit :: "char \<Rightarrow> bool" where
  "digit c = (c \<in> set ''0123456789'')"

definition octdigit :: "char \<Rightarrow> bool" where
  "octdigit c = (c \<in> set ''01234567'')"

definition digit_val :: "char \<Rightarrow> nat" where
  "digit_val c = of_char c - 48"

definition decimal :: "string \<Rightarrow> nat" where
  "decimal ds = foldl (\<lambda>n d. 10 * n + digit_val d) 0 ds"

definition ascii_letter :: "char \<Rightarrow> bool" where
  "ascii_letter c =
     (c \<in> set ''abcdefghijklmnopqrstuvwxyzABCDEFGHIJKLMNOPQRSTUVWXYZ'')"

definition escape :: "char \<Rightarrow> char option" where
  \<comment> \<open>The table \<open>ESCAPES\<close> of the template parser.\<close>
  "escape c =
     (if c = CHR ''a'' then Some (CHR 0x07)
      else if c = CHR ''b'' then Some (CHR 0x08)
      else if c = CHR ''f'' then Some (CHR 0x0C)
      else if c = CHR ''n'' then Some newline
      else if c = CHR ''r'' then Some (CHR 0x0D)
      else if c = CHR ''t'' then Some (CHR 0x09)
      else if c = CHR ''v'' then Some (CHR 0x0B)
      else if c = backslash then Some backslash
      else None)"

definition cons_tpl :: "tpl list \<Rightarrow> error + tpl list \<Rightarrow> error + tpl list" where
  "cons_tpl xs r = (case r of Inl e \<Rightarrow> Inl e | Inr ys \<Rightarrow> Inr (xs @ ys))"

text \<open>
  \<open>parse_template n name s\<close>: \<open>n\<close> is the number of groups of the pattern;
  \<open>name\<close> is \<open>Some acc\<close> while the name of a \<open>\g<...>\<close> reference is being read
  (the loop \<open>getuntil\<close>).
\<close>

fun parse_template :: "nat \<Rightarrow> string option \<Rightarrow> string \<Rightarrow> error + tpl list" where
  "parse_template n (Some acc) [] = Inl ReplError"
| "parse_template n (Some acc) (c # s) =
     (if c = backslash then
        (case s of [] \<Rightarrow> Inl ReplError | d # t \<Rightarrow> parse_template n (Some (acc @ [c, d])) t)
      else if c = CHR ''>'' then
        (if acc \<noteq> [] \<and> list_all digit acc \<and> decimal acc \<le> n
         then cons_tpl [TGroup (decimal acc)] (parse_template n None s)
         else Inl ReplError)
      else parse_template n (Some (acc @ [c])) s)"
| "parse_template n None [] = Inr []"
| "parse_template n None (c # s) =
     (if c \<noteq> backslash then cons_tpl [TLit c] (parse_template n None s)
      else
        (case s of
           [] \<Rightarrow> Inl ReplError
         | e # t \<Rightarrow>
             if e = CHR ''g'' then
               (case t of
                  [] \<Rightarrow> Inl ReplError
                | l # u \<Rightarrow> if l = CHR ''<'' then parse_template n (Some []) u else Inl ReplError)
             else if e = CHR ''0'' then
               (case t of
                  [] \<Rightarrow> cons_tpl [TLit (CHR 0x00)] (parse_template n None t)
                | d1 # t1 \<Rightarrow>
                    if octdigit d1 then
                      (case t1 of
                         [] \<Rightarrow> cons_tpl [TLit (char_of (digit_val d1))] (parse_template n None t1)
                       | d2 # t2 \<Rightarrow>
                           if octdigit d2
                           then cons_tpl [TLit (char_of (8 * digit_val d1 + digit_val d2))]
                                  (parse_template n None t2)
                           else cons_tpl [TLit (char_of (digit_val d1))] (parse_template n None t1))
                    else cons_tpl [TLit (CHR 0x00)] (parse_template n None t))
             else if digit e then
               (case t of
                  [] \<Rightarrow>
                    if digit_val e \<le> n then cons_tpl [TGroup (digit_val e)] (parse_template n None t)
                    else Inl ReplError
                | d1 # t1 \<Rightarrow>
                    if digit d1 then
                      (case t1 of
                         [] \<Rightarrow>
                           if 10 * digit_val e + digit_val d1 \<le> n
                           then cons_tpl [TGroup (10 * digit_val e + digit_val d1)]
                                  (parse_template n None t1)
                           else Inl ReplError
                       | d2 # t2 \<Rightarrow>
                           if octdigit e \<and> octdigit d1 \<and> octdigit d2 then
                             (if 64 * digit_val e + 8 * digit_val d1 + digit_val d2 > 255
                              then Inl ReplError
                              else cons_tpl
                                     [TLit (char_of (64 * digit_val e + 8 * digit_val d1 + digit_val d2))]
                                     (parse_template n None t2))
                           else if 10 * digit_val e + digit_val d1 \<le> n
                           then cons_tpl [TGroup (10 * digit_val e + digit_val d1)]
                                  (parse_template n None t1)
                           else Inl ReplError)
                    else if digit_val e \<le> n
                    then cons_tpl [TGroup (digit_val e)] (parse_template n None t)
                    else Inl ReplError)
             else
               (case escape e of
                  Some ch \<Rightarrow> cons_tpl [TLit ch] (parse_template n None t)
                | None \<Rightarrow>
                    if ascii_letter e then Inl ReplError
                    else cons_tpl [TLit backslash, TLit e] (parse_template n None t))))"

definition ngroups :: "re_item list \<Rightarrow> nat" where
  "ngroups r = length (filter (\<lambda>x. x = GroupOpen) r)"

definition expand :: "tpl list \<Rightarrow> string \<Rightarrow> string list \<Rightarrow> string" where
  \<comment> \<open>Group 0 is the whole match.\<close>
  "expand t m gs =
     concat (map (\<lambda>x. case x of
                        TLit c \<Rightarrow> [c]
                      | TGroup i \<Rightarrow> if i = 0 then m else if i - 1 < length gs then gs ! (i - 1) else [])
                 t)"

definition sub :: "re_item list \<Rightarrow> tpl list \<Rightarrow> string \<Rightarrow> string" where
  "sub r t s =
     concat (map (\<lambda>p. case p of Gap c \<Rightarrow> [c] | Hit m gs \<Rightarrow> expand t m gs) (scan r s))"

definition re_sub :: "string \<Rightarrow> string \<Rightarrow> string \<Rightarrow> error + string" where
  "re_sub pattern repl s =
     (case re_compile pattern of
        None \<Rightarrow> Inl Unmodelled
      | Some r \<Rightarrow>
          (case parse_template (ngroups r) None repl of
             Inl e \<Rightarrow> Inl e
           | Inr t \<Rightarrow> Inr (sub r t s)))"

section \<open>The version-pin script\<close>

text \<open>
  \<open>get_latest_package_version\<close> runs \<open>pip index versions\<close> in a subprocess; the
  decoded standard output of that command is the argument \<open>output\<close> here.  The
  pattern is the f-string of the source, the package name spliced in unescaped.
\<close>

definition version_search_pattern :: "string \<Rightarrow> string" where
  "version_search_pattern package_name =
     package_name @ [backslash, CHR ''s'', backslash, CHR ''(''] @ ''(.*)'' @ [backslash, CHR '')'']"

definition get_latest_package_version :: "string \<Rightarrow> string \<Rightarrow> error + string" where
  "get_latest_package_version package_name output =
     (case re_compile (version_search_pattern package_name) of
        None \<Rightarrow> Inl Unmodelled
      | Some version_search_regex \<Rightarrow>
          (case re_match version_search_regex output of
             None \<Rightarrow> Inl RuntimeError
           | Some gs \<Rightarrow> (case gs of [] \<Rightarrow> Inl IndexError | version # _ \<Rightarrow> Inr version)))"

text \<open>
  The two files the script touches, each with its text or \<open>None\<close> when it does
  not exist.
\<close>

record files =
  requirements_iree_pinned :: "string option"
  update_git_commit_message :: "string option"

definition body_text :: "string \<Rightarrow> string \<Rightarrow> string" where
  "body_text iree_base_compiler_version old_version =
     ''Automated update of IREE deps to '' @ iree_base_compiler_version @ ''.'' @ [newline, newline]
     @ ''Diff: https://github.com/iree-org/iree/compare/iree-'' @ old_version
     @ ''...iree-'' @ iree_base_compiler_version @ [newline] @ ''        ''"

definition rewrite_pins :: "string \<Rightarrow> string \<Rightarrow> string \<Rightarrow> error + string" where
  \<comment> \<open>The two \<open>re.sub\<close> calls of \<open>main\<close>, one after the other.\<close>
  "rewrite_pins iree_base_compiler_version iree_base_runtime_version text =
     (case re_sub ''iree-base-compiler==.*''
             (''iree-base-compiler=='' @ iree_base_compiler_version) text of
        Inl e \<Rightarrow> Inl e
      | Inr text1 \<Rightarrow>
          re_sub ''iree-base-runtime==.*''
            (''iree-base-runtime=='' @ iree_base_runtime_version) text1)"

text \<open>
  \<open>main pip_index fs\<close>: \<open>pip_index\<close> gives the output of the package-index query
  for a package name, \<open>fs\<close> the files before the run.  The result is the files
  after the run and the exception that ended it, if any.
\<close>

definition main :: "(string \<Rightarrow> string) \<Rightarrow> files \<Rightarrow> files \<times> error option" where
  "main pip_index fs =
     (case get_latest_package_version ''iree-base-compiler'' (pip_index ''iree-base-compiler'') of
        Inl e \<Rightarrow> (fs, Some e)
      | Inr iree_base_compiler_version \<Rightarrow>
     (case get_latest_package_version ''iree-base-runtime'' (pip_index ''iree-base-runtime'') of
        Inl e \<Rightarrow> (fs, Some e)
      | Inr iree_base_runtime_version \<Rightarrow>
     (case requirements_iree_pinned fs of
        None \<Rightarrow> (fs, Some FileNotFoundError)
      | Some text \<Rightarrow>
     (case re_findall ''iree-base-compiler==(.*)'' text of
        Inl e \<Rightarrow> (fs, Some e)
      | Inr found \<Rightarrow>
     (case found of
        [] \<Rightarrow> (fs, Some IndexError)
      | old_version # _ \<Rightarrow>
     (case rewrite_pins iree_base_compiler_version iree_base_runtime_version text of
        Inl e \<Rightarrow> (fs, Some e)
      | Inr text' \<Rightarrow>
          (fs\<lparr>update_git_commit_message :=
                 Some (body_text iree_base_compiler_version old_version),
               requirements_iree_pinned := Some text'\<rparr>,
           None)))))))"

section \<open>The Evoformer attention test\<close>

text \<open>
  The test is parametrized over the element types \<open>tkl.f16\<close> and \<open>tkl.bf16\<close> and
  over the default shapes (each twice, the second time marked for performance
  runs).  The kernel and the reference formula are computed outside this
  repository's test file: the model takes their results, the tensors
  \<open>torch_ref\<close> and \<open>output\<close>, which both have the shape
  \<open>(batch, n, q_seq_len, heads, v_dim)\<close>, as functions from the flat index of an
  element to its value.  A value is a finite number, an infinity or NaN.  The
  rounding of the element type is the parameter \<open>rnd\<close>: it gives the value stored
  for an exact difference.
\<close>

datatype DataType = f16 | bf16 | f32

datatype torch_dtype = float16 | bfloat16 | float32

















section \<open>Notions used to state the properties\<close>

text \<open>
  A package name is \<open>plain\<close> when none of its characters has a meaning in a
  pattern, so that splicing it into the pattern matches the name itself.  Both
  names \<open>main\<close> passes are plain.
\<close>

definition plain :: "string \<Rightarrow> bool" where
  "plain p = list_all (\<lambda>c. \<not> special c) p"

text \<open>
  \<open>version_at package_name s\<close>: the text \<open>s\<close> starts with the package name, one
  whitespace character, an opening parenthesis, and a closing parenthesis follows
  on the same line.  \<open>contains_version\<close>: some suffix of the text does.
\<close>

definition version_at :: "string \<Rightarrow> string \<Rightarrow> bool" where
  "version_at package_name s =
     (prefix package_name s \<and>
      (case drop (length package_name) s of
         w # b # t \<Rightarrow>
           isspace w \<and> b = CHR ''('' \<and> CHR '')'' \<in> set (takeWhile (\<lambda>c. c \<noteq> newline) t)
       | _ \<Rightarrow> False))"

definition contains_version :: "string \<Rightarrow> string \<Rightarrow> bool" where
  "contains_version package_name s =
     list_ex (\<lambda>i. version_at package_name (drop i s)) [0..<Suc (length s)]"

text \<open>
  \<open>occurs lit s\<close>: \<open>lit\<close> is a substring of \<open>s\<close>.  \<open>through_first lit s\<close>: the prefix of \<open>s\<close>
  that ends with the first occurrence of \<open>lit\<close>.  \<open>repin lit v l\<close>: the line \<open>l\<close>
  with everything after the first occurrence of \<open>lit\<close> replaced by \<open>v\<close>.
\<close>

fun occurs :: "string \<Rightarrow> string \<Rightarrow> bool" where
  "occurs lit [] = (lit = [])"
| "occurs lit (c # cs) = (prefix lit (c # cs) \<or> occurs lit cs)"

fun through_first :: "string \<Rightarrow> string \<Rightarrow> string option" where
  "through_first lit [] = (if lit = [] then Some [] else None)"
| "through_first lit (c # cs) =
     (if prefix lit (c # cs) then Some lit else map_option ((#) c) (through_first lit cs))"

definition repin :: "string \<Rightarrow> string \<Rightarrow> string \<Rightarrow> string" where
  "repin lit v l = (case through_first lit l of None \<Rightarrow> l | Some u \<Rightarrow> u @ v)"

definition pinned_version :: "string \<Rightarrow> string \<Rightarrow> string option" where
  \<comment> \<open>What follows the first occurrence of \<open>lit\<close>, up to the end of its line.\<close>
  "pinned_version lit text =
     (case through_first lit text of
        None \<Rightarrow> None
      | Some u \<Rightarrow> Some (takeWhile (\<lambda>c. c \<noteq> newline) (drop (length u) text)))"

fun split_lines :: "string \<Rightarrow> string list" where
  "split_lines [] = [[]]"
| "split_lines (c # s) =
     (if c = newline then [] # split_lines s
      else (case split_lines s of [] \<Rightarrow> [[c]] | l # ls \<Rightarrow> (c # l) # ls))"

fun join_lines :: "string list \<Rightarrow> string" where
  "join_lines [] = []"
| "join_lines [l] = l"
| "join_lines (l # ls) = l @ newline # join_lines ls"

definition shift :: "nat \<Rightarrow> (nat \<times> nat list) option \<Rightarrow> (nat \<times> nat list) option" where
  "shift k m = (case m of None \<Rightarrow> None | Some (n, ms) \<Rightarrow> Some (k + n, map ((+) k) ms))"

abbreviation version_regex :: "string \<Rightarrow> re_item list" where
  "version_regex p \<equiv>
     map Literal p @ [Space, Literal (CHR ''(''), GroupOpen, DotStar, GroupClose, Literal (CHR '')'')]"

abbreviation rest_of_line :: "string \<Rightarrow> string" where
  "rest_of_line s \<equiv> takeWhile (\<lambda>c. c \<noteq> newline) s"

abbreviation compiler_pin :: string where
  "compiler_pin \<equiv> ''iree-base-compiler==''"

abbreviation runtime_pin :: string where
  "runtime_pin \<equiv> ''iree-base-runtime==''"

text \<open>
  A text pins exactly the versions \<open>cv\<close> and \<open>rv\<close> when on every line that holds
  a pin, what follows the first occurrence of the pin is that version.
\<close>

definition pins_exactly :: "string \<Rightarrow> string \<Rightarrow> string \<Rightarrow> bool" where
  "pins_exactly cv rv text =
     list_all (\<lambda>l. (occurs compiler_pin l \<longrightarrow> pinned_version compiler_pin l = Some cv) \<and>
                    (occurs runtime_pin l \<longrightarrow> pinned_version runtime_pin l = Some rv))
              (split_lines text)"

section \<open>Example inputs\<close>

definition example_index :: "string \<Rightarrow> string" where
  "example_index package_name =
     (if package_name = ''iree-base-compiler''
      then ''iree-base-compiler (3.2.0rc20250109)'' @ [newline] @
           ''Available versions: 3.2.0rc20250109, 3.1.0''
      else if package_name = ''iree-base-runtime''
      then ''iree-base-runtime (3.2.0rc20250110)'' @ [newline] @
           ''Available versions: 3.2.0rc20250110, 3.1.0''
      else ''ERROR: No matching distribution found for '' @ package_name)"

definition failing_index :: "string \<Rightarrow> string" where
  \<comment> \<open>The compiler query answers, the runtime query does not.\<close>
  "failing_index package_name =
     (if package_name = ''iree-base-compiler''
      then ''iree-base-compiler (3.2.0rc20250109)'' @ [newline]
      else ''ERROR: No matching distribution found for '' @ package_name)"

definition example_requirements :: string where
  "example_requirements =
     ''# Pinned IREE versions'' @ [newline] @
     ''iree-base-compiler==3.1.0'' @ [newline] @
     ''iree-base-runtime==3.1.0'' @ [newline]"

definition example_files :: files where
  "example_files =
     \<lparr>requirements_iree_pinned = Some example_requirements,
      update_git_commit_message = None\<rparr>"

definition updated_requirements :: string where
  "updated_requirements =
     ''# Pinned IREE versions'' @ [newline] @
     ''iree-base-compiler==3.2.0rc20250109'' @ [newline] @
     ''iree-base-runtime==3.2.0rc20250110'' @ [newline]"

definition updated_files :: files where
  "updated_files =
     \<lparr>requirements_iree_pinned = Some updated_requirements,
      update_git_commit_message =
        Some (''Automated update of IREE deps to 3.2.0rc20250109.'' @ [newline, newline] @
              ''Diff: https://github.com/iree-org/iree/compare/iree-3.1.0...iree-3.2.0rc20250109'' @
              [newline] @ ''        '')\<rparr>"

section \<open>Parsing and matching\<close>

lemma special_quantifier: "quantifier c \<Longrightarrow> special c"
  by (auto simp: quantifier_def special_def)

lemma no_quant_append: "plain p \<Longrightarrow> no_quant rest \<Longrightarrow> no_quant (p @ rest)"
  by (cases p) (auto simp: no_quant_def plain_def dest: special_quantifier)

lemma re_parse_plain:
  "plain p \<Longrightarrow> no_quant rest \<Longrightarrow>
   re_parse g (p @ rest) = map_option (\<lambda>r. map Literal p @ r) (re_parse g rest)"
proof (induction p)
  case Nil
  then show ?case by (simp add: option.map_ident)
next
  case (Cons c p)
  have c: "\<not> special c" and p: "plain p" using Cons.prems by (auto simp: plain_def)
  then have ne: "c \<noteq> backslash" "c \<noteq> CHR ''.''" "c \<noteq> CHR ''(''" "c \<noteq> CHR '')''"
    by (auto simp: special_def)
  have nq: "no_quant (p @ rest)" using p Cons.prems(2) by (rule no_quant_append)
  show ?case using Cons.IH[OF p Cons.prems(2)] c ne nq
    by (cases "re_parse g rest") (simp_all add: cons_opt_def)
qed

lemma re_compile_version:
  "plain p \<Longrightarrow> re_compile (version_search_pattern p) = Some (version_regex p)"
  unfolding re_compile_def version_search_pattern_def
  by (subst re_parse_plain) (simp_all add: no_quant_def quantifier_def special_def cons_opt_def)

lemma shift_0: "shift 0 m = m"
  by (auto simp: shift_def split: option.splits intro: map_idI)

lemma advance_shift: "advance (shift k m) = shift (Suc k) m"
  by (auto simp: shift_def advance_def split: option.splits)

lemma match_here_literals:
  "match_here (map Literal p @ r) s =
     (if prefix p s then shift (length p) (match_here r (drop (length p) s)) else None)"
proof (induction p arbitrary: s)
  case Nil
  show ?case by (simp add: shift_0)
next
  case (Cons c p)
  show ?case
  proof (cases s)
    case Nil
    then show ?thesis by simp
  next
    case (Cons x xs)
    then show ?thesis using Cons.IH[of xs]
      by (auto simp: advance_shift) (simp add: advance_def)
  qed
qed

lemma match_here_DotStar_Nil: "match_here (DotStar # r) [] = match_here r []"
  by simp

lemma match_here_DotStar_Cons:
  "match_here (DotStar # r) (x # xs) =
     (if x \<noteq> newline then
        (case advance (match_here (DotStar # r) xs) of
           Some m \<Rightarrow> Some m
         | None \<Rightarrow> match_here r (x # xs))
      else match_here r (x # xs))"
  by simp

declare match_here.simps(6) [simp del]
declare match_here_DotStar_Nil [simp] match_here_DotStar_Cons [simp]

lemma dotstar_close_none:
  "c \<noteq> newline \<Longrightarrow> c \<notin> set (takeWhile (\<lambda>x. x \<noteq> newline) s) \<Longrightarrow>
   match_here [DotStar, GroupClose, Literal c] s = None"
  by (induction s) (auto simp: advance_def mark_def)

lemma dotstar_close_complete:
  "c \<noteq> newline \<Longrightarrow> newline \<notin> set v \<Longrightarrow> c \<notin> set (takeWhile (\<lambda>x. x \<noteq> newline) rest) \<Longrightarrow>
   match_here [DotStar, GroupClose, Literal c] (v @ c # rest) = Some (Suc (length v), [length v])"
proof (induction v)
  case Nil
  then show ?case by (simp add: dotstar_close_none advance_def mark_def)
next
  case (Cons x v)
  then show ?case by (auto simp: advance_def)
qed

lemma dotstar_close_sound:
  "match_here [DotStar, GroupClose, Literal c] s = Some (n, ms) \<Longrightarrow>
   \<exists>v rest. s = v @ c # rest \<and> newline \<notin> set v \<and> n = Suc (length v) \<and> ms = [length v]"
proof (induction s arbitrary: n ms)
  case Nil
  then show ?case by (simp add: mark_def)
next
  case (Cons x xs)
  show ?case
  proof (cases "x \<noteq> newline \<and> match_here [DotStar, GroupClose, Literal c] xs \<noteq> None")
    case True
    then obtain n' ms' where m: "match_here [DotStar, GroupClose, Literal c] xs = Some (n', ms')"
      by auto
    from Cons.IH[OF m] obtain v rest where
      v: "xs = v @ c # rest" "newline \<notin> set v" "n' = Suc (length v)" "ms' = [length v]" by blast
    from Cons.prems True m have "n = Suc n'" "ms = map Suc ms'"
      by (auto simp: advance_def)
    with v True show ?thesis
      by (intro exI[of _ "x # v"] exI[of _ rest]) auto
  next
    case False
    with Cons.prems have "mark (match_here [Literal c] (x # xs)) = Some (n, ms)"
      by (auto simp: advance_def split: if_splits option.splits)
    then have "x = c" "n = 1" "ms = [0]"
      by (auto simp: mark_def advance_def split: if_splits option.splits)
    then show ?thesis by (intro exI[of _ "[]"] exI[of _ xs]) auto
  qed
qed


lemma version_regex_complete:
  assumes "isspace w" "newline \<notin> set v" "CHR '')'' \<notin> set (takeWhile (\<lambda>x. x \<noteq> newline) rest)"
  shows "match_here (version_regex p) (p @ w # CHR ''('' # v @ CHR '')'' # rest) =
           Some (length p + 3 + length v, [length p + 2, length p + 2 + length v])"
  using assms
  by (simp add: match_here_literals dotstar_close_complete advance_def mark_def shift_def)

lemma version_regex_sound:
  assumes "match_here (version_regex p) s = Some (n, ms)"
  shows "\<exists>w v rest. s = p @ w # CHR ''('' # v @ CHR '')'' # rest \<and> isspace w \<and>
           newline \<notin> set v \<and> ms = [length p + 2, length p + 2 + length v]"
proof -
  from assms have pre: "prefix p s"
    by (simp add: match_here_literals split: if_splits)
  then obtain s' where s: "s = p @ s'" by (auto simp: prefix_def)
  from assms s obtain n' ms' where
    m': "match_here [Space, Literal (CHR ''(''), GroupOpen, DotStar, GroupClose, Literal (CHR '')'')] s'
           = Some (n', ms')" and ms: "ms = map ((+) (length p)) ms'"
    by (auto simp: match_here_literals shift_def split: option.splits)
  from m' obtain w b t where s': "s' = w # b # t" and w: "isspace w" and b: "b = CHR ''(''"
    by (cases s'; cases "tl s'") (auto simp: advance_def split: if_splits)
  from m' s' w b obtain n'' ms'' where
    m'': "match_here [DotStar, GroupClose, Literal (CHR '')'')] t = Some (n'', ms'')"
    and ms': "ms' = [2, Suc (Suc (hd ms''))]" and l: "length ms'' = 1"
    apply (simp add: advance_def mark_def split: option.splits)
    apply (auto dest!: dotstar_close_sound)
    done
  from dotstar_close_sound[OF m''] obtain v rest where
    "t = v @ CHR '')'' # rest" "newline \<notin> set v" "ms'' = [length v]" by blast
  with s s' w b ms ms' show ?thesis by auto
qed

lemma get_latest_sound:
  assumes "plain p" "get_latest_package_version p out = Inr v"
  shows "\<exists>w rest. out = p @ w # CHR ''('' # v @ CHR '')'' # rest \<and> isspace w \<and> newline \<notin> set v"
proof -
  from assms obtain n ms where m: "match_here (version_regex p) out = Some (n, ms)"
    and g: "groups ms out = v # tl (groups ms out)"
    by (auto simp: get_latest_package_version_def re_compile_version re_match_def
             split: option.splits list.splits)
  from version_regex_sound[OF m] obtain w v' rest where
    o: "out = p @ w # CHR ''('' # v' @ CHR '')'' # rest" "isspace w" "newline \<notin> set v'"
       "ms = [length p + 2, length p + 2 + length v']" by blast
  then have "groups ms out = [v']" by simp
  with g have "v' = v" by simp
  with o show ?thesis by blast
qed

lemma get_latest_outcome:
  assumes "plain p"
  shows "get_latest_package_version p out = Inl RuntimeError \<or>
         (\<exists>v. get_latest_package_version p out = Inr v)"
proof (cases "match_here (version_regex p) out")
  case None
  then show ?thesis using assms
    by (simp add: get_latest_package_version_def re_compile_version re_match_def)
next
  case (Some m)
  obtain n ms where "m = (n, ms)" by (cases m)
  with Some version_regex_sound[of p out n ms] show ?thesis using assms
    by (auto simp: get_latest_package_version_def re_compile_version re_match_def)
qed

lemma get_latest_version_at:
  assumes "plain p" "get_latest_package_version p out = Inr v"
  shows "version_at p out"
proof -
  from get_latest_sound[OF assms] obtain w rest where
    "out = p @ w # CHR ''('' # v @ CHR '')'' # rest" "isspace w" "newline \<notin> set v" by blast
  then show ?thesis
    by (auto simp: version_at_def takeWhile_append)
qed

section \<open>The version found in the package-index output\<close>

text \<open>
  C4.  When the first line of the output is the package name, a space and the
  version in parentheses, \<open>get_latest_package_version\<close> returns exactly the text
  between the parentheses.  The package name is plain and the version, being part
  of one line, holds no newline.
\<close>

theorem get_latest_package_version_first_line:
  assumes "plain package_name" "newline \<notin> set version" "rest = [] \<or> hd rest = newline"
  shows "get_latest_package_version package_name
           (package_name @ '' ('' @ version @ '')'' @ rest) = Inr version"
proof -
  have "CHR '')'' \<notin> set (takeWhile (\<lambda>x. x \<noteq> newline) rest)"
    using assms(3) by (cases rest) auto
  moreover have "isspace (CHR '' '')" by (simp add: isspace_def)
  ultimately have "match_here (version_regex package_name)
      (package_name @ CHR '' '' # CHR ''('' # version @ CHR '')'' # rest) =
      Some (length package_name + 3 + length version,
            [length package_name + 2, length package_name + 2 + length version])"
    using assms(2) by (intro version_regex_complete)
  then show ?thesis using assms(1)
    by (simp add: get_latest_package_version_def re_compile_version re_match_def)
qed

theorem get_latest_package_version_first_line_witness:
  "plain ''iree-base-compiler'' \<and> newline \<notin> set ''3.2.0rc20250109'' \<and>
   hd (newline # ''Available versions: 3.2.0rc20250109, 3.1.0'') = newline \<and>
   get_latest_package_version ''iree-base-compiler''
     (''iree-base-compiler (3.2.0rc20250109)'' @ newline # ''Available versions: 3.2.0rc20250109, 3.1.0'')
     = Inr ''3.2.0rc20250109''"
  using get_latest_package_version_first_line
          [of "''iree-base-compiler''" "''3.2.0rc20250109''"
              "newline # ''Available versions: 3.2.0rc20250109, 3.1.0''"]
  by (simp add: plain_def special_def)

text \<open>
  C3.  When no suffix of the output starts with the package name, a whitespace
  character and a parenthesised text closed on the same line, the function raises
  \<open>RuntimeError\<close>; it returns no version.
\<close>

theorem get_latest_package_version_no_pattern:
  assumes "plain package_name" "\<not> contains_version package_name output"
  shows "get_latest_package_version package_name output = Inl RuntimeError"
proof -
  have "0 \<in> set [0..<Suc (length output)]" by simp
  with assms(2) have "\<not> version_at package_name (drop 0 output)"
    unfolding contains_version_def list_ex_iff by blast
  then have "\<not> version_at package_name output" by simp
  with get_latest_version_at[OF assms(1)] get_latest_outcome[OF assms(1), of "output"]
  show ?thesis by auto
qed

theorem get_latest_package_version_no_pattern_witness:
  "plain ''iree-base-runtime'' \<and>
   \<not> contains_version ''iree-base-runtime''
       ''ERROR: No matching distribution found for iree-base-runtime'' \<and>
   get_latest_package_version ''iree-base-runtime''
     ''ERROR: No matching distribution found for iree-base-runtime'' = Inl RuntimeError"
proof -
  have p: "plain ''iree-base-runtime''" by (simp add: plain_def special_def)
  have n: "\<not> contains_version ''iree-base-runtime''
       ''ERROR: No matching distribution found for iree-base-runtime''"
    by code_simp
  from p n get_latest_package_version_no_pattern[OF p n] show ?thesis by simp
qed

text \<open>
  C8.  The compiled pattern is applied with \<open>match\<close>, which tries position 0
  only: when the pattern occurs at a later position \<open>i\<close> and not at the start,
  the function raises \<open>RuntimeError\<close>.
\<close>

theorem get_latest_package_version_anchored:
  assumes "plain package_name" "0 < i" "version_at package_name (drop i output)"
    "\<not> version_at package_name output"
  shows "get_latest_package_version package_name output = Inl RuntimeError"
  using get_latest_version_at[OF assms(1), of "output"] get_latest_outcome[OF assms(1), of "output"]
    assms(4) by auto

theorem get_latest_package_version_anchored_witness:
  "plain ''iree-base-compiler'' \<and> (0::nat) < 26 \<and>
   version_at ''iree-base-compiler''
     (drop 26 (''WARNING: pip is old.     '' @ newline # ''iree-base-compiler (3.2.0)'')) \<and>
   \<not> version_at ''iree-base-compiler''
     (''WARNING: pip is old.     '' @ newline # ''iree-base-compiler (3.2.0)'') \<and>
   get_latest_package_version ''iree-base-compiler''
     (''WARNING: pip is old.     '' @ newline # ''iree-base-compiler (3.2.0)'') = Inl RuntimeError"
proof -
  have p: "plain ''iree-base-compiler''" by (simp add: plain_def special_def)
  have i: "(0::nat) < 26" by simp
  have a: "version_at ''iree-base-compiler''
     (drop 26 (''WARNING: pip is old.     '' @ newline # ''iree-base-compiler (3.2.0)''))"
    by code_simp
  have b: "\<not> version_at ''iree-base-compiler''
     (''WARNING: pip is old.     '' @ newline # ''iree-base-compiler (3.2.0)'')"
    by code_simp
  from p i a b get_latest_package_version_anchored[OF p i a b] show ?thesis by simp
qed

section \<open>Scanning, substitution and lines\<close>


lemma dotstar_end: "match_here [DotStar] s = Some (length (rest_of_line s), [])"
  by (induction s) (auto simp: advance_def)

lemma dotstar_group_end:
  "match_here [DotStar, GroupClose] s = Some (length (rest_of_line s), [length (rest_of_line s)])"
  by (induction s) (auto simp: advance_def mark_def)

lemma match_lit_dotstar:
  "match_here (map Literal lit @ [DotStar]) s =
     (if prefix lit s then Some (length lit + length (rest_of_line (drop (length lit) s)), [])
      else None)"
  by (simp add: match_here_literals dotstar_end shift_def)

lemma match_lit_group:
  "match_here (map Literal lit @ [GroupOpen, DotStar, GroupClose]) s =
     (if prefix lit s
      then Some (length lit + length (rest_of_line (drop (length lit) s)),
                 [length lit, length lit + length (rest_of_line (drop (length lit) s))])
      else None)"
  by (simp add: match_here_literals dotstar_group_end shift_def mark_def)

lemma take_line: "take (length (rest_of_line s)) s = rest_of_line s"
  by (induction s) auto

lemma drop_line: "drop (length (rest_of_line s)) s = dropWhile (\<lambda>c. c \<noteq> newline) s"
  by (induction s) auto

lemma take_lit_line:
  "prefix lit s \<Longrightarrow>
   take (length lit + length (rest_of_line (drop (length lit) s))) s =
     lit @ rest_of_line (drop (length lit) s)"
  by (auto simp: prefix_def take_line)

lemma drop_lit_line:
  "drop (length lit + length (rest_of_line (drop (length lit) s))) s =
     dropWhile (\<lambda>c. c \<noteq> newline) (drop (length lit) s)"
proof -
  have "drop (length lit + length (rest_of_line (drop (length lit) s))) s =
        drop (length (rest_of_line (drop (length lit) s))) (drop (length lit) s)"
    by (simp add: add.commute)
  then show ?thesis by (simp only: drop_line)
qed

lemma scan_lit_Nil: "lit \<noteq> [] \<Longrightarrow> scan (map Literal lit @ [DotStar]) [] = []"
  by (simp add: match_lit_dotstar)

lemma scan_lit_Cons:
  "lit \<noteq> [] \<Longrightarrow>
   scan (map Literal lit @ [DotStar]) (c # cs) =
     (if prefix lit (c # cs)
      then Hit (lit @ rest_of_line (drop (length lit) (c # cs))) []
           # scan (map Literal lit @ [DotStar])
               (dropWhile (\<lambda>x. x \<noteq> newline) (drop (length lit) (c # cs)))
      else Gap c # scan (map Literal lit @ [DotStar]) cs)"
  using take_lit_line[of lit "c # cs"] drop_lit_line[of lit "c # cs"]
  by (simp add: match_lit_dotstar del: take_append drop_append)

lemma scan_group_Nil:
  "lit \<noteq> [] \<Longrightarrow> scan (map Literal lit @ [GroupOpen, DotStar, GroupClose]) [] = []"
  by (simp add: match_lit_group)

lemma scan_group_Cons:
  "lit \<noteq> [] \<Longrightarrow>
   scan (map Literal lit @ [GroupOpen, DotStar, GroupClose]) (c # cs) =
     (if prefix lit (c # cs)
      then Hit (lit @ rest_of_line (drop (length lit) (c # cs)))
               [rest_of_line (drop (length lit) (c # cs))]
           # scan (map Literal lit @ [GroupOpen, DotStar, GroupClose])
               (dropWhile (\<lambda>x. x \<noteq> newline) (drop (length lit) (c # cs)))
      else Gap c # scan (map Literal lit @ [GroupOpen, DotStar, GroupClose]) cs)"
  using take_lit_line[of lit "c # cs"] drop_lit_line[of lit "c # cs"]
    take_line[of "drop (length lit) (c # cs)"]
  by (simp add: match_lit_group del: take_append drop_append)

lemma parse_template_literal:
  "backslash \<notin> set repl \<Longrightarrow> parse_template n None repl = Inr (map TLit repl)"
  by (induction repl) (auto simp: cons_tpl_def)

lemma expand_literal: "expand (map TLit repl) m gs = repl"
  by (induction repl) (auto simp: expand_def)

subsection \<open>Lines\<close>

lemma split_lines_nonempty: "split_lines s \<noteq> []"
  by (induction s) (auto split: list.splits)

lemma split_lines_no_newline: "l \<in> set (split_lines s) \<Longrightarrow> newline \<notin> set l"
  by (induction s arbitrary: l) (auto split: list.splits if_splits)

lemma join_split_lines: "join_lines (split_lines s) = s"
proof (induction s)
  case Nil
  show ?case by simp
next
  case (Cons c s)
  obtain l ls where sp: "split_lines s = l # ls"
    using split_lines_nonempty[of s] by (cases "split_lines s") auto
  with Cons show ?case by (cases ls) auto
qed

lemma split_lines_line: "newline \<notin> set l \<Longrightarrow> split_lines l = [l]"
  by (induction l) auto

lemma split_lines_append:
  "newline \<notin> set l \<Longrightarrow> split_lines (l @ newline # s) = l # split_lines s"
  by (induction l) auto

lemma split_join_lines:
  "ls \<noteq> [] \<Longrightarrow> \<forall>l\<in>set ls. newline \<notin> set l \<Longrightarrow> split_lines (join_lines ls) = ls"
  by (induction ls rule: join_lines.induct) (auto simp: split_lines_line split_lines_append)

subsection \<open>First occurrences\<close>

lemma through_first_None_iff: "through_first lit s = None \<longleftrightarrow> \<not> occurs lit s"
  by (induction s) auto

lemma through_first_prefix: "through_first lit s = Some u \<Longrightarrow> prefix u s"
  by (induction s arbitrary: u) (auto split: if_splits)

lemma through_first_ends: "through_first lit s = Some u \<Longrightarrow> \<exists>pre. u = pre @ lit"
proof (induction s arbitrary: u)
  case Nil
  then show ?case by (auto split: if_splits)
next
  case (Cons c s)
  show ?case
  proof (cases "prefix lit (c # s)")
    case True
    with Cons.prems show ?thesis by auto
  next
    case False
    with Cons.prems obtain u' where u': "through_first lit s = Some u'" "u = c # u'" by auto
    from Cons.IH[OF u'(1)] obtain pre where "u' = pre @ lit" by blast
    with u' show ?thesis by (intro exI[of _ "c # pre"]) simp
  qed
qed

lemma through_first_determined: "through_first lit s = Some u \<Longrightarrow> prefix u s' \<Longrightarrow> through_first lit s' = Some u"
proof (induction s arbitrary: u s')
  case Nil
  then show ?case by (cases s') (auto split: if_splits)
next
  case (Cons c s)
  show ?case
  proof (cases "prefix lit (c # s)")
    case True
    with Cons.prems show ?thesis by (cases s') auto
  next
    case False
    with Cons.prems obtain u' where u': "through_first lit s = Some u'" "u = c # u'" by auto
    with Cons.prems obtain t where s': "s' = c # t" "prefix u' t"
      by (cases s') auto
    from through_first_ends[OF u'(1)] obtain pre where pre: "u' = pre @ lit" by blast
    have "\<not> prefix lit (c # t)"
    proof
      assume l: "prefix lit (c # t)"
      have "prefix u (c # t)" using u' s' by simp
      with l have "prefix lit u"
        using pre u' by (metis prefix_length_prefix length_append length_Cons le_add2 le_SucI)
      moreover have "prefix u (c # s)" using through_first_prefix[OF u'(1)] u' by simp
      ultimately show False using False by (meson prefix_order.trans)
    qed
    with Cons.IH[OF u'(1) s'(2)] u' s' show ?thesis by simp
  qed
qed

lemma repin_no_pin: "\<not> occurs lit l \<Longrightarrow> repin lit v l = l"
  by (simp add: repin_def through_first_None_iff[symmetric])

lemma repin_prefix: "prefix lit l \<Longrightarrow> lit \<noteq> [] \<Longrightarrow> repin lit v l = lit @ v"
  by (cases l) (auto simp: repin_def)

lemma repin_Cons: "\<not> prefix lit (c # cs) \<Longrightarrow> repin lit v (c # cs) = c # repin lit v cs"
  by (auto simp: repin_def split: option.splits)

lemma repin_Nil: "lit \<noteq> [] \<Longrightarrow> repin lit v [] = []"
  by (simp add: repin_def)

lemma repin_set: "set (repin lit v l) \<subseteq> set l \<union> set v"
  by (auto simp: repin_def split: option.splits dest!: through_first_prefix dest: set_mono_prefix)

lemma repin_fixed: "repin lit v (repin lit v l) = repin lit v l"
proof (cases "through_first lit l")
  case None
  then show ?thesis by (simp add: repin_def)
next
  case (Some u)
  then have "through_first lit (u @ v) = Some u" by (rule through_first_determined) simp
  with Some show ?thesis by (simp add: repin_def)
qed

text \<open>Two pins rewritten one after the other: doing it twice changes nothing others.\<close>

lemma repin_twice:
  "repin r rv (repin c cv (repin r rv (repin c cv l))) = repin r rv (repin c cv l)"
proof -
  define l1 where "l1 = repin c cv l"
  have fix1: "repin c cv l1 = l1" unfolding l1_def by (rule repin_fixed)
  show ?thesis unfolding l1_def[symmetric]
  proof (cases "through_first r l1")
    case None
    then have "repin r rv l1 = l1" by (simp add: repin_def)
    with fix1 show "repin r rv (repin c cv (repin r rv l1)) = repin r rv l1" by simp
  next
    case (Some w)
    then have l2: "repin r rv l1 = w @ rv" by (simp add: repin_def)
    have w1: "prefix w l1" using Some by (rule through_first_prefix)
    show "repin r rv (repin c cv (repin r rv l1)) = repin r rv l1"
    proof (cases "through_first c (w @ rv)")
      case None
      then have "repin c cv (w @ rv) = w @ rv" by (simp add: repin_def)
      moreover have "through_first r (w @ rv) = Some w" using Some by (rule through_first_determined) simp
      ultimately show ?thesis using l2 by (simp add: repin_def)
    next
      case (Some u)
      then have cu: "repin c cv (w @ rv) = u @ cv" by (simp add: repin_def)
      have "prefix u (w @ rv)" using Some by (rule through_first_prefix)
      then consider "prefix w u" | "prefix u w"
        by (metis prefix_append prefixI prefix_order.refl append_prefixD prefix_same_cases)
      then show ?thesis
      proof cases
        case 1
        then have "prefix w (u @ cv)" by (simp add: prefix_prefix)
        with \<open>through_first r l1 = Some w\<close> have "through_first r (u @ cv) = Some w" by (rule through_first_determined)
        then show ?thesis using l2 cu by (simp add: repin_def)
      next
        case 2
        with w1 have "prefix u l1" by (meson prefix_order.trans)
        with Some have "through_first c l1 = Some u" by (rule through_first_determined)
        with fix1 have "l1 = u @ cv" by (simp add: repin_def)
        then show ?thesis using l2 cu by simp
      qed
    qed
  qed
qed

subsection \<open>Substitution, line by line\<close>

lemma prefix_line:
  assumes "prefix lit (l @ tail)" "newline \<notin> set lit" "tail = [] \<or> hd tail = newline"
  shows "prefix lit l"
proof (rule ccontr)
  assume n: "\<not> prefix lit l"
  with assms(1) obtain us where us: "lit = l @ us" "prefix us tail"
    by (auto simp: prefix_append)
  with n have "us \<noteq> []" by auto
  with us(2) assms(3) have "hd us = newline" by (cases us; cases tail) auto
  with \<open>us \<noteq> []\<close> have "newline \<in> set us" by (cases us) auto
  with us(1) assms(2) show False by simp
qed

declare scan.simps [simp del]

lemma sub_Nil: "lit \<noteq> [] \<Longrightarrow> sub (map Literal lit @ [DotStar]) t [] = []"
  by (simp add: sub_def scan_lit_Nil)

lemma sub_newline:
  "lit \<noteq> [] \<Longrightarrow> newline \<notin> set lit \<Longrightarrow>
   sub (map Literal lit @ [DotStar]) t (newline # s) = newline # sub (map Literal lit @ [DotStar]) t s"
proof -
  assume a: "lit \<noteq> []" "newline \<notin> set lit"
  then have "\<not> prefix lit (newline # s)" by (cases lit) auto
  then show ?thesis using scan_lit_Cons[OF a(1), of newline s] by (simp add: sub_def)
qed

lemma sub_line:
  assumes "lit \<noteq> []" "newline \<notin> set lit" "newline \<notin> set l" "tail = [] \<or> hd tail = newline"
  shows "sub (map Literal lit @ [DotStar]) (map TLit (lit @ v)) (l @ tail) =
         repin lit v l @ sub (map Literal lit @ [DotStar]) (map TLit (lit @ v)) tail"
  using assms(3)
proof (induction l)
  case Nil
  show ?case using assms(1) by (simp add: repin_Nil)
next
  case (Cons c cs)
  show ?case
  proof (cases "prefix lit ((c # cs) @ tail)")
    case True
    then have p: "prefix lit (c # cs)" using assms(2,4) by (rule prefix_line)
    then obtain l' where l': "c # cs = lit @ l'" by (auto simp: prefix_def)
    with Cons.prems have nl: "newline \<notin> set l'"
      by (metis Un_iff set_append)
    have d: "drop (length lit) ((c # cs) @ tail) = l' @ tail"
      using l' by (metis append.assoc append_eq_conv_conj)
    have dw: "dropWhile (\<lambda>x. x \<noteq> newline) (l' @ tail) = tail"
      using nl assms(4) by (cases tail) (auto simp: dropWhile_append)
    have "scan (map Literal lit @ [DotStar]) ((c # cs) @ tail) =
          Hit (lit @ rest_of_line (l' @ tail)) [] # scan (map Literal lit @ [DotStar]) tail"
      using scan_lit_Cons[OF assms(1), of c "cs @ tail"] True d dw by simp
    then show ?thesis using p assms(1)
      by (simp add: sub_def expand_literal repin_prefix del: map_append)
  next
    case False
    then have np: "\<not> prefix lit (c # cs)" by (meson prefix_prefix)
    from Cons have IH: "sub (map Literal lit @ [DotStar]) (map TLit (lit @ v)) (cs @ tail) =
         repin lit v cs @ sub (map Literal lit @ [DotStar]) (map TLit (lit @ v)) tail" by simp
    have "sub (map Literal lit @ [DotStar]) (map TLit (lit @ v)) ((c # cs) @ tail) =
          c # sub (map Literal lit @ [DotStar]) (map TLit (lit @ v)) (cs @ tail)"
      using scan_lit_Cons[OF assms(1), of c "cs @ tail"] False by (simp add: sub_def)
    with IH np show ?thesis by (simp add: repin_Cons)
  qed
qed

lemma sub_join:
  assumes "lit \<noteq> []" "newline \<notin> set lit"
  shows "ls \<noteq> [] \<Longrightarrow> \<forall>l\<in>set ls. newline \<notin> set l \<Longrightarrow>
         sub (map Literal lit @ [DotStar]) (map TLit (lit @ v)) (join_lines ls) =
         join_lines (map (repin lit v) ls)"
proof (induction ls rule: join_lines.induct)
  case 1
  then show ?case by simp
next
  case (2 l)
  then show ?case using sub_line[OF assms, of l "[]" v] sub_Nil[OF assms(1)] by simp
next
  case (3 l l2 ls)
  then show ?case
    using sub_line[OF assms, of l "newline # join_lines (l2 # ls)" v] sub_newline[OF assms]
    by simp
qed

lemma sub_lines:
  assumes "lit \<noteq> []" "newline \<notin> set lit"
  shows "sub (map Literal lit @ [DotStar]) (map TLit (lit @ v)) s =
         join_lines (map (repin lit v) (split_lines s))"
  using sub_join[OF assms, of "split_lines s" v]
  by (simp add: split_lines_nonempty split_lines_no_newline join_split_lines)

lemma split_lines_repin:
  assumes "newline \<notin> set v"
  shows "split_lines (join_lines (map (repin lit v) (split_lines s))) =
         map (repin lit v) (split_lines s)"
proof (rule split_join_lines)
  show "map (repin lit v) (split_lines s) \<noteq> []" by (simp add: split_lines_nonempty)
  show "\<forall>l\<in>set (map (repin lit v) (split_lines s)). newline \<notin> set l"
    using assms repin_set[of lit v] split_lines_no_newline[of _ s] by fastforce
qed

lemma re_compile_compiler_sub:
  "re_compile ''iree-base-compiler==.*'' = Some (map Literal compiler_pin @ [DotStar])"
  by code_simp

lemma re_compile_runtime_sub:
  "re_compile ''iree-base-runtime==.*'' = Some (map Literal runtime_pin @ [DotStar])"
  by code_simp

lemma re_compile_compiler_findall:
  "re_compile ''iree-base-compiler==(.*)'' =
     Some (map Literal compiler_pin @ [GroupOpen, DotStar, GroupClose])"
  by code_simp

lemma ngroups_sub: "ngroups (map Literal lit @ [DotStar]) = 0"
  by (induction lit) (auto simp: ngroups_def)

lemma re_sub_compiler:
  assumes "backslash \<notin> set v"
  shows "re_sub ''iree-base-compiler==.*'' (compiler_pin @ v) s =
         Inr (join_lines (map (repin compiler_pin v) (split_lines s)))"
proof -
  have "backslash \<notin> set (compiler_pin @ v)" using assms by simp
  then have "parse_template 0 None (compiler_pin @ v) = Inr (map TLit (compiler_pin @ v))"
    by (rule parse_template_literal)
  moreover have "sub (map Literal compiler_pin @ [DotStar]) (map TLit (compiler_pin @ v)) s =
         join_lines (map (repin compiler_pin v) (split_lines s))"
    by (rule sub_lines) simp_all
  ultimately show ?thesis
    by (simp only: re_sub_def re_compile_compiler_sub option.case ngroups_sub sum.case)
qed

lemma re_sub_runtime:
  assumes "backslash \<notin> set v"
  shows "re_sub ''iree-base-runtime==.*'' (runtime_pin @ v) s =
         Inr (join_lines (map (repin runtime_pin v) (split_lines s)))"
proof -
  have "backslash \<notin> set (runtime_pin @ v)" using assms by simp
  then have "parse_template 0 None (runtime_pin @ v) = Inr (map TLit (runtime_pin @ v))"
    by (rule parse_template_literal)
  moreover have "sub (map Literal runtime_pin @ [DotStar]) (map TLit (runtime_pin @ v)) s =
         join_lines (map (repin runtime_pin v) (split_lines s))"
    by (rule sub_lines) simp_all
  ultimately show ?thesis
    by (simp only: re_sub_def re_compile_runtime_sub option.case ngroups_sub sum.case)
qed

lemma rewrite_pins_lines:
  assumes "backslash \<notin> set cv" "backslash \<notin> set rv" "newline \<notin> set cv"
  shows "rewrite_pins cv rv text =
         Inr (join_lines (map (\<lambda>l. repin runtime_pin rv (repin compiler_pin cv l))
                              (split_lines text)))"
  by (simp only: rewrite_pins_def re_sub_compiler[OF assms(1)] sum.case
        re_sub_runtime[OF assms(2)] split_lines_repin[OF assms(3)] map_map comp_def)

subsection \<open>findall\<close>

lemma findall_none:
  assumes "lit \<noteq> []"
  shows "\<not> occurs lit s \<Longrightarrow> findall (map Literal lit @ [GroupOpen, DotStar, GroupClose]) s = []"
proof (induction s)
  case Nil
  show ?case using assms by (simp add: findall_def scan_group_Nil)
next
  case (Cons c cs)
  then show ?case using scan_group_Cons[OF assms, of c cs] by (simp add: findall_def)
qed

lemma findall_first:
  assumes "lit \<noteq> []"
  shows "through_first lit s = Some u \<Longrightarrow>
         \<exists>others. findall (map Literal lit @ [GroupOpen, DotStar, GroupClose]) s =
                   rest_of_line (drop (length u) s) # others"
proof (induction s arbitrary: u)
  case Nil
  then show ?case using assms by simp
next
  case (Cons c cs)
  show ?case
  proof (cases "prefix lit (c # cs)")
    case True
    with Cons.prems have "u = lit" by simp
    with True show ?thesis using scan_group_Cons[OF assms, of c cs] by (simp add: findall_def)
  next
    case False
    with Cons.prems obtain u' where u': "through_first lit cs = Some u'" "u = c # u'" by auto
    from Cons.IH[OF u'(1)] obtain others where
      "findall (map Literal lit @ [GroupOpen, DotStar, GroupClose]) cs =
         rest_of_line (drop (length u') cs) # others" by blast
    with False u' show ?thesis using scan_group_Cons[OF assms, of c cs]
      by (simp add: findall_def)
  qed
qed

lemma re_findall_compiler:
  "re_findall ''iree-base-compiler==(.*)'' text =
     Inr (findall (map Literal compiler_pin @ [GroupOpen, DotStar, GroupClose]) text)"
  by (simp only: re_findall_def re_compile_compiler_findall option.case)

lemma re_findall_compiler_none:
  "\<not> occurs compiler_pin text \<Longrightarrow> re_findall ''iree-base-compiler==(.*)'' text = Inr []"
proof -
  assume "\<not> occurs compiler_pin text"
  then have "findall (map Literal compiler_pin @ [GroupOpen, DotStar, GroupClose]) text = []"
    by (rule findall_none[rotated]) simp
  then show ?thesis by (simp only: re_findall_compiler)
qed

lemma re_findall_compiler_first:
  assumes "re_findall ''iree-base-compiler==(.*)'' text = Inr (old # others)"
  shows "pinned_version compiler_pin text = Some old"
proof (cases "through_first compiler_pin text")
  case None
  then have "\<not> occurs compiler_pin text" by (simp add: through_first_None_iff)
  from re_findall_compiler_none[OF this] assms show ?thesis by simp
next
  case (Some u)
  from findall_first[of compiler_pin, OF list.distinct(2) Some] assms
  have "old = rest_of_line (drop (length u) text)"
    by (auto simp only: re_findall_compiler sum.inject list.inject)
  with Some show ?thesis by (simp add: pinned_version_def)
qed

lemma re_findall_compiler_some:
  assumes "pinned_version compiler_pin text = Some old"
  shows "\<exists>others. re_findall ''iree-base-compiler==(.*)'' text = Inr (old # others)"
proof -
  from assms obtain u where u: "through_first compiler_pin text = Some u"
    "old = rest_of_line (drop (length u) text)"
    by (auto simp: pinned_version_def split: option.splits)
  from findall_first[of compiler_pin, OF list.distinct(2) u(1)] u(2)
  show ?thesis by (auto simp only: re_findall_compiler)
qed

lemma plain_compiler: "plain ''iree-base-compiler''"
  by (simp add: plain_def special_def)

lemma plain_runtime: "plain ''iree-base-runtime''"
  by (simp add: plain_def special_def)

subsection \<open>Substrings and lines\<close>

lemma occurs_iff: "occurs lit s \<longleftrightarrow> (\<exists>pre post. s = pre @ lit @ post)"
proof (induction s)
  case Nil
  show ?case by auto
next
  case (Cons c s)
  show ?case
  proof
    assume "occurs lit (c # s)"
    then consider "prefix lit (c # s)" | "occurs lit s" by auto
    then show "\<exists>pre post. c # s = pre @ lit @ post"
    proof cases
      case 1
      then obtain post where "c # s = lit @ post" by (auto simp: prefix_def)
      then show ?thesis by (intro exI[of _ "[]"] exI[of _ post]) simp
    next
      case 2
      with Cons obtain pre post where "s = pre @ lit @ post" by blast
      then show ?thesis by (intro exI[of _ "c # pre"] exI[of _ post]) simp
    qed
  next
    assume "\<exists>pre post. c # s = pre @ lit @ post"
    then obtain pre post where e: "c # s = pre @ lit @ post" by blast
    show "occurs lit (c # s)"
    proof (cases pre)
      case Nil
      with e have "prefix lit (c # s)" by (simp add: prefix_def)
      then show ?thesis by simp
    next
      case (Cons a pre')
      with e have "s = pre' @ lit @ post" by simp
      with Cons.IH show ?thesis by auto
    qed
  qed
qed

lemma line_in_text: "l \<in> set (split_lines s) \<Longrightarrow> \<exists>a b. s = a @ l @ b"
proof (induction s arbitrary: l)
  case Nil
  then show ?case by simp
next
  case (Cons c s)
  obtain l0 ls where sp: "split_lines s = l0 # ls"
    using split_lines_nonempty[of s] by (cases "split_lines s") auto
  show ?case
  proof (cases "c = newline")
    case True
    with Cons.prems consider "l = []" | "l \<in> set (split_lines s)" by auto
    then show ?thesis
    proof cases
      case 1
      then show ?thesis by (intro exI[of _ "[]"] exI[of _ "c # s"]) simp
    next
      case 2
      from Cons.IH[OF this] obtain a b where "s = a @ l @ b" by blast
      then show ?thesis by (intro exI[of _ "c # a"] exI[of _ b]) simp
    qed
  next
    case False
    with Cons.prems sp consider "l = c # l0" | "l \<in> set (split_lines s)" by auto
    then show ?thesis
    proof cases
      case 1
      have "l0 \<in> set (split_lines s)" using sp by simp
      from Cons.IH[OF this] obtain a b where ab: "s = a @ l0 @ b" by blast
      have "prefix l0 s" using sp
      proof -
        have "join_lines (l0 # ls) = s" using join_split_lines[of s] sp by simp
        then show ?thesis by (cases ls) auto
      qed
      then obtain b' where "s = l0 @ b'" by (auto simp: prefix_def)
      with 1 show ?thesis by (intro exI[of _ "[]"] exI[of _ b']) simp
    next
      case 2
      from Cons.IH[OF this] obtain a b where "s = a @ l @ b" by blast
      then show ?thesis by (intro exI[of _ "c # a"] exI[of _ b]) simp
    qed
  qed
qed

lemma occurs_line: "l \<in> set (split_lines s) \<Longrightarrow> occurs lit l \<Longrightarrow> occurs lit s"
proof -
  assume "l \<in> set (split_lines s)" "occurs lit l"
  then obtain a b pre post where "s = a @ l @ b" "l = pre @ lit @ post"
    using line_in_text occurs_iff by metis
  then have "s = (a @ pre) @ lit @ (post @ b)" by simp
  then show ?thesis unfolding occurs_iff by blast
qed

section \<open>The run of the script\<close>

lemma main_success:
  assumes c: "get_latest_package_version ''iree-base-compiler'' (pip_index ''iree-base-compiler'') = Inr cv"
    and r: "get_latest_package_version ''iree-base-runtime'' (pip_index ''iree-base-runtime'') = Inr rv"
    and t: "requirements_iree_pinned fs = Some text"
    and f: "re_findall ''iree-base-compiler==(.*)'' text = Inr (old # others)"
    and w: "rewrite_pins cv rv text = Inr text'"
  shows "main pip_index fs =
           (fs\<lparr>update_git_commit_message := Some (body_text cv old),
                requirements_iree_pinned := Some text'\<rparr>, None)"
  by (simp add: main_def c r t f w)

lemma main_success_cases:
  assumes "main pip_index fs = (fs', None)"
  obtains cv rv content old others content' where
    "get_latest_package_version ''iree-base-compiler'' (pip_index ''iree-base-compiler'') = Inr cv"
    "get_latest_package_version ''iree-base-runtime'' (pip_index ''iree-base-runtime'') = Inr rv"
    "requirements_iree_pinned fs = Some content"
    "re_findall ''iree-base-compiler==(.*)'' content = Inr (old # others)"
    "rewrite_pins cv rv content = Inr content'"
    "fs' = fs\<lparr>update_git_commit_message := Some (body_text cv old),
                 requirements_iree_pinned := Some content'\<rparr>"
  using assms unfolding main_def
  by (auto split: sum.splits option.splits list.splits)

lemma queried_no_newline:
  "plain p \<Longrightarrow> get_latest_package_version p out = Inr v \<Longrightarrow> newline \<notin> set v"
  using get_latest_sound by blast

lemma rewrite_pins_split:
  assumes "backslash \<notin> set cv" "backslash \<notin> set rv" "newline \<notin> set cv" "newline \<notin> set rv"
  shows "\<exists>text'. rewrite_pins cv rv text = Inr text' \<and>
           split_lines text' =
             map (\<lambda>l. repin runtime_pin rv (repin compiler_pin cv l)) (split_lines text)"
proof -
  let ?g = "\<lambda>l. repin runtime_pin rv (repin compiler_pin cv l)"
  have "split_lines (join_lines (map ?g (split_lines text))) = map ?g (split_lines text)"
  proof (rule split_join_lines)
    show "map ?g (split_lines text) \<noteq> []" by (simp add: split_lines_nonempty)
    show "\<forall>l\<in>set (map ?g (split_lines text)). newline \<notin> set l"
    proof
      fix l assume "l \<in> set (map ?g (split_lines text))"
      then obtain l0 where l0: "l0 \<in> set (split_lines text)" "l = ?g l0" by auto
      have "set l \<subseteq> set l0 \<union> set cv \<union> set rv"
        using repin_set[of runtime_pin rv "repin compiler_pin cv l0"]
          repin_set[of compiler_pin cv l0] l0(2) by blast
      with split_lines_no_newline[OF l0(1)] assms(3,4) show "newline \<notin> set l" by blast
    qed
  qed
  with rewrite_pins_lines[OF assms(1,2,3), of "text"] show ?thesis by simp
qed

lemma runtime_pin_not_in_compiler_pin:
  "occurs runtime_pin (compiler_pin @ v) = occurs runtime_pin v"
  by simp

lemma repin_pinned:
  assumes "newline \<notin> set l" "occurs lit l \<longrightarrow> pinned_version lit l = Some v"
  shows "repin lit v l = l"
proof (cases "through_first lit l")
  case None
  then show ?thesis by (simp add: repin_def)
next
  case (Some u)
  then have "occurs lit l" using through_first_None_iff[of lit l] by simp
  with assms(2) Some have v: "rest_of_line (drop (length u) l) = v"
    by (simp add: pinned_version_def)
  have "\<forall>c\<in>set (drop (length u) l). c \<noteq> newline"
    using assms(1) by (auto dest: in_set_dropD)
  then have "rest_of_line (drop (length u) l) = drop (length u) l"
    by (simp only: takeWhile_eq_all_conv)
  with v have d: "drop (length u) l = v" by (simp only:)
  have "take (length u) l = u" using through_first_prefix[OF Some]
    by (auto simp: prefix_def)
  then have "u @ v = l" using d append_take_drop_id[of "length u" l] by (simp only:)
  with Some show ?thesis by (simp add: repin_def)
qed

text \<open>
  C9.  When the query for either package version raises, \<open>main\<close> ends with an
  exception and the two files are as they were: neither the requirements file nor
  the commit-message file has been written.
\<close>

theorem main_no_write_on_version_error:
  assumes "get_latest_package_version ''iree-base-compiler'' (pip_index ''iree-base-compiler'') = Inl e
         \<or> get_latest_package_version ''iree-base-runtime'' (pip_index ''iree-base-runtime'') = Inl e"
  shows "\<exists>e'. main pip_index fs = (fs, Some e')"
  using assms unfolding main_def by (auto split: sum.splits)

theorem main_no_write_on_version_error_witness:
  "(get_latest_package_version ''iree-base-compiler'' (failing_index ''iree-base-compiler'')
      = Inl RuntimeError \<or>
    get_latest_package_version ''iree-base-runtime'' (failing_index ''iree-base-runtime'')
      = Inl RuntimeError) \<and>
   (\<exists>e'. main failing_index example_files = (example_files, Some e'))"
proof -
  have "get_latest_package_version ''iree-base-runtime'' (failing_index ''iree-base-runtime'')
      = Inl RuntimeError" by code_simp
  then have h: "get_latest_package_version ''iree-base-compiler'' (failing_index ''iree-base-compiler'')
      = Inl RuntimeError \<or>
    get_latest_package_version ''iree-base-runtime'' (failing_index ''iree-base-runtime'')
      = Inl RuntimeError" by (rule disjI2)
  from h main_no_write_on_version_error[OF h, of example_files] show ?thesis by (rule conjI)
qed

text \<open>
  C2, amended.  The script looks for the pin with an unanchored search, so what
  makes it fail is the absence of the text \<open>iree-base-compiler==\<close> anywhere in
  the requirements file, not the absence of a line that starts with a pin: then
  \<open>main\<close> ends with an exception and writes no file, and when both version
  queries succeeded the exception is the \<open>IndexError\<close> of the empty
  \<open>findall\<close> result.
\<close>

theorem main_fails_without_compiler_pin:
  assumes "requirements_iree_pinned fs = Some text" "\<not> occurs compiler_pin text"
  shows "(\<exists>e. main pip_index fs = (fs, Some e)) \<and>
         ((\<exists>cv. get_latest_package_version ''iree-base-compiler'' (pip_index ''iree-base-compiler'') = Inr cv) \<and>
          (\<exists>rv. get_latest_package_version ''iree-base-runtime'' (pip_index ''iree-base-runtime'') = Inr rv)
          \<longrightarrow> main pip_index fs = (fs, Some IndexError))"
  using assms re_findall_compiler_none[OF assms(2)] unfolding main_def
  by (auto split: sum.splits)

theorem main_fails_without_compiler_pin_witness:
  "requirements_iree_pinned
     \<lparr>requirements_iree_pinned = Some (''iree-base-runtime==3.1.0'' @ [newline]),
      update_git_commit_message = None\<rparr> = Some (''iree-base-runtime==3.1.0'' @ [newline]) \<and>
   \<not> occurs compiler_pin (''iree-base-runtime==3.1.0'' @ [newline]) \<and>
   main example_index
     \<lparr>requirements_iree_pinned = Some (''iree-base-runtime==3.1.0'' @ [newline]),
      update_git_commit_message = None\<rparr> =
     (\<lparr>requirements_iree_pinned = Some (''iree-base-runtime==3.1.0'' @ [newline]),
       update_git_commit_message = None\<rparr>, Some IndexError)"
proof -
  let ?fs = "\<lparr>requirements_iree_pinned = Some (''iree-base-runtime==3.1.0'' @ [newline]),
      update_git_commit_message = None\<rparr>"
  have a: "requirements_iree_pinned ?fs = Some (''iree-base-runtime==3.1.0'' @ [newline])"
    by simp
  have b: "\<not> occurs compiler_pin (''iree-base-runtime==3.1.0'' @ [newline])" by code_simp
  have c: "\<exists>cv. get_latest_package_version ''iree-base-compiler''
                   (example_index ''iree-base-compiler'') = Inr cv"
    by (rule exI[of _ "''3.2.0rc20250109''"]) code_simp
  have r: "\<exists>rv. get_latest_package_version ''iree-base-runtime''
                   (example_index ''iree-base-runtime'') = Inr rv"
    by (rule exI[of _ "''3.2.0rc20250110''"]) code_simp
  from main_fails_without_compiler_pin[OF a b, of example_index] c r
  have "main example_index ?fs = (?fs, Some IndexError)" by blast
  with a b show ?thesis by blast
qed

text \<open>
  The claim as first stated fails: in the file below no line starts with either
  pin (the only pin is commented out), and the script runs to the end and
  rewrites the file.
\<close>

theorem main_fails_without_compiler_pin_counterexample:
  "split_lines (''# iree-base-compiler==3.1.0'' @ [newline]) = [''# iree-base-compiler==3.1.0'', []] \<and>
   \<not> prefix compiler_pin ''# iree-base-compiler==3.1.0'' \<and>
   \<not> prefix runtime_pin ''# iree-base-compiler==3.1.0'' \<and>
   \<not> prefix compiler_pin [] \<and> \<not> prefix runtime_pin [] \<and>
   main example_index
     \<lparr>requirements_iree_pinned = Some (''# iree-base-compiler==3.1.0'' @ [newline]),
      update_git_commit_message = None\<rparr> =
     (\<lparr>requirements_iree_pinned = Some (''# iree-base-compiler==3.2.0rc20250109'' @ [newline]),
       update_git_commit_message =
         Some (''Automated update of IREE deps to 3.2.0rc20250109.'' @ [newline, newline] @
               ''Diff: https://github.com/iree-org/iree/compare/iree-3.1.0...iree-3.2.0rc20250109'' @
               [newline] @ ''        '')\<rparr>, None)"
  by code_simp

text \<open>
  C7.  After a successful run the commit-message file holds the summary line
  with the queried compiler version, an empty line, and the comparison link from
  the old pinned compiler version (what followed the first
  \<open>iree-base-compiler==\<close> up to the end of its line) to the new one.
\<close>

theorem main_commit_message:
  assumes "main pip_index fs = (fs', None)"
  shows "\<exists>cv old text msg.
           get_latest_package_version ''iree-base-compiler'' (pip_index ''iree-base-compiler'') = Inr cv \<and>
           requirements_iree_pinned fs = Some text \<and>
           pinned_version compiler_pin text = Some old \<and>
           update_git_commit_message fs' = Some msg \<and>
           msg = ''Automated update of IREE deps to '' @ cv @ ''.'' @ [newline, newline] @
                 ''Diff: https://github.com/iree-org/iree/compare/iree-'' @ old @ ''...iree-'' @ cv @
                 [newline] @ ''        '' \<and>
           split_lines msg =
             [''Automated update of IREE deps to '' @ cv @ ''.'', [],
              ''Diff: https://github.com/iree-org/iree/compare/iree-'' @ old @ ''...iree-'' @ cv,
              ''        '']"
proof -
  from assms obtain cv rv "text" old others text' where
    c: "get_latest_package_version ''iree-base-compiler'' (pip_index ''iree-base-compiler'') = Inr cv"
    and t: "requirements_iree_pinned fs = Some text"
    and f: "re_findall ''iree-base-compiler==(.*)'' text = Inr (old # others)"
    and fs': "fs' = fs\<lparr>update_git_commit_message := Some (body_text cv old),
                 requirements_iree_pinned := Some text'\<rparr>"
    by (rule main_success_cases)
  have old: "pinned_version compiler_pin text = Some old" using f by (rule re_findall_compiler_first)
  have ncv: "newline \<notin> set cv" using plain_compiler c by (rule queried_no_newline)
  have nold: "newline \<notin> set old" using old
    by (auto simp: pinned_version_def split: option.splits dest: set_takeWhileD)
  let ?l1 = "''Automated update of IREE deps to '' @ cv @ ''.''"
  let ?l3 = "''Diff: https://github.com/iree-org/iree/compare/iree-'' @ old @ ''...iree-'' @ cv"
  let ?msg = "''Automated update of IREE deps to '' @ cv @ ''.'' @ [newline, newline] @
                 ''Diff: https://github.com/iree-org/iree/compare/iree-'' @ old @ ''...iree-'' @ cv @
                 [newline] @ ''        ''"
  have bt: "body_text cv old = ?msg" by (simp only: body_text_def)
  have b: "?msg = ?l1 @ newline # [] @ newline # ?l3 @ newline # ''        ''"
    by simp
  have n1: "newline \<notin> set ?l1" using ncv by simp
  have n3: "newline \<notin> set ?l3" using ncv nold by simp
  have e4: "split_lines ''        '' = [''        '']" by (rule split_lines_line) simp
  have e3: "split_lines (?l3 @ newline # ''        '') = ?l3 # split_lines ''        ''"
    using n3 by (rule split_lines_append)
  have e2: "split_lines ([] @ newline # ?l3 @ newline # ''        '') =
            [] # split_lines (?l3 @ newline # ''        '')"
    by (rule split_lines_append) simp
  have e1: "split_lines (?l1 @ newline # [] @ newline # ?l3 @ newline # ''        '') =
            ?l1 # split_lines ([] @ newline # ?l3 @ newline # ''        '')"
    using n1 by (rule split_lines_append)
  have sp: "split_lines ?msg = [?l1, [], ?l3, ''        '']"
    by (simp only: b e1 e2 e3 e4)
  have u: "update_git_commit_message fs' = Some ?msg" using fs' bt by simp
  from c t old u sp show ?thesis by blast
qed

theorem main_commit_message_witness:
  "main example_index example_files = (updated_files, None) \<and>
   (\<exists>cv old text msg.
      get_latest_package_version ''iree-base-compiler'' (example_index ''iree-base-compiler'') = Inr cv \<and>
      requirements_iree_pinned example_files = Some text \<and>
      pinned_version compiler_pin text = Some old \<and>
      update_git_commit_message updated_files = Some msg \<and>
      msg = ''Automated update of IREE deps to '' @ cv @ ''.'' @ [newline, newline] @
            ''Diff: https://github.com/iree-org/iree/compare/iree-'' @ old @ ''...iree-'' @ cv @
            [newline] @ ''        '' \<and>
      split_lines msg =
        [''Automated update of IREE deps to '' @ cv @ ''.'', [],
         ''Diff: https://github.com/iree-org/iree/compare/iree-'' @ old @ ''...iree-'' @ cv,
         ''        ''])"
proof -
  have h: "main example_index example_files = (updated_files, None)" by code_simp
  from h main_commit_message[OF h] show ?thesis by (rule conjI)
qed

lemma repin_runtime_line:
  "repin runtime_pin rv (repin compiler_pin cv (runtime_pin @ w)) = runtime_pin @ rv"
proof -
  have "prefix runtime_pin (repin compiler_pin cv (runtime_pin @ w))"
  proof (cases "through_first compiler_pin (runtime_pin @ w)")
    case None
    then show ?thesis by (simp only: repin_def option.case prefixI)
  next
    case (Some u)
    from through_first_ends[OF Some] obtain pre where "u = pre @ compiler_pin" by blast
    then have "length runtime_pin \<le> length u" by simp
    moreover have "prefix u (runtime_pin @ w)" using Some by (rule through_first_prefix)
    moreover have "prefix runtime_pin (runtime_pin @ w)" by (rule prefixI) (rule refl)
    ultimately have "prefix runtime_pin u" by (meson prefix_length_prefix)
    then have "prefix runtime_pin (u @ cv)" by (rule prefix_prefix)
    with Some show ?thesis by (simp only: repin_def option.case)
  qed
  then show ?thesis by (rule repin_prefix) simp
qed

text \<open>
  C1, amended.  The script rewrites both pins.  For queried versions without a
  backslash, the compiler version not containing the text
  \<open>iree-base-runtime==\<close>, a file with a line \<open>iree-base-compiler==X\<close> is
  rewritten so that this line reads \<open>iree-base-compiler==\<close> followed by the
  queried compiler version, every line \<open>iree-base-runtime==W\<close> reads
  \<open>iree-base-runtime==\<close> followed by the queried runtime version, the number
  of lines is the same, and every line that holds neither
  \<open>iree-base-compiler==\<close> nor \<open>iree-base-runtime==\<close> is unchanged.
\<close>

theorem main_rewrites_pins:
  assumes c: "get_latest_package_version ''iree-base-compiler'' (pip_index ''iree-base-compiler'') = Inr cv"
    and r: "get_latest_package_version ''iree-base-runtime'' (pip_index ''iree-base-runtime'') = Inr rv"
    and bs: "backslash \<notin> set cv" "backslash \<notin> set rv"
    and nr: "\<not> occurs runtime_pin cv"
    and t: "requirements_iree_pinned fs = Some text"
    and i: "i < length (split_lines text)" "split_lines text ! i = compiler_pin @ x"
  shows "\<exists>fs' text'.
           main pip_index fs = (fs', None) \<and>
           requirements_iree_pinned fs' = Some text' \<and>
           length (split_lines text') = length (split_lines text) \<and>
           split_lines text' ! i = compiler_pin @ cv \<and>
           (\<forall>j<length (split_lines text). \<forall>w.
              split_lines text ! j = runtime_pin @ w \<longrightarrow>
              split_lines text' ! j = runtime_pin @ rv) \<and>
           (\<forall>j<length (split_lines text).
              \<not> occurs compiler_pin (split_lines text ! j) \<and>
              \<not> occurs runtime_pin (split_lines text ! j) \<longrightarrow>
              split_lines text' ! j = split_lines text ! j)"
proof -
  let ?g = "\<lambda>l. repin runtime_pin rv (repin compiler_pin cv l)"
  have ncv: "newline \<notin> set cv" using plain_compiler c by (rule queried_no_newline)
  have nrv: "newline \<notin> set rv" using plain_runtime r by (rule queried_no_newline)
  from rewrite_pins_split[OF bs ncv nrv, of "text"] obtain text' where
    w: "rewrite_pins cv rv text = Inr text'" and
    sp: "split_lines text' = map ?g (split_lines text)" by blast
  have "compiler_pin @ x \<in> set (split_lines text)" using i by (metis nth_mem)
  moreover have "occurs compiler_pin (compiler_pin @ x)" unfolding occurs_iff
    by (intro exI[of _ "[]"] exI[of _ x]) simp
  ultimately have "occurs compiler_pin text" by (rule occurs_line)
  then obtain u where "through_first compiler_pin text = Some u"
    using through_first_None_iff[of compiler_pin "text"] by auto
  then obtain old where "pinned_version compiler_pin text = Some old"
    by (simp add: pinned_version_def)
  then obtain others where f: "re_findall ''iree-base-compiler==(.*)'' text = Inr (old # others)"
    using re_findall_compiler_some by blast
  have m: "main pip_index fs =
           (fs\<lparr>update_git_commit_message := Some (body_text cv old),
                requirements_iree_pinned := Some text'\<rparr>, None)"
    using c r t f w by (rule main_success)
  have len: "length (split_lines text') = length (split_lines text)" using sp by simp
  have a: "repin compiler_pin cv (compiler_pin @ x) = compiler_pin @ cv"
    by (rule repin_prefix) simp_all
  have b: "\<not> occurs runtime_pin (compiler_pin @ cv)"
    using nr runtime_pin_not_in_compiler_pin[of cv] by blast
  have "repin runtime_pin rv (compiler_pin @ cv) = compiler_pin @ cv"
    using b by (rule repin_no_pin)
  with a have "?g (compiler_pin @ x) = compiler_pin @ cv" by (simp only:)
  with sp i have li: "split_lines text' ! i = compiler_pin @ cv" by simp
  have other: "\<forall>j<length (split_lines text).
              \<not> occurs compiler_pin (split_lines text ! j) \<and>
              \<not> occurs runtime_pin (split_lines text ! j) \<longrightarrow>
              split_lines text' ! j = split_lines text ! j"
    using sp by (simp add: repin_no_pin)
  have rt: "\<forall>j<length (split_lines text). \<forall>w.
              split_lines text ! j = runtime_pin @ w \<longrightarrow>
              split_lines text' ! j = runtime_pin @ rv"
  proof (intro allI impI)
    fix j w
    assume j: "j < length (split_lines text)" and e: "split_lines text ! j = runtime_pin @ w"
    have "split_lines text' ! j = ?g (split_lines text ! j)" using sp j by simp
    also have "\<dots> = ?g (runtime_pin @ w)" by (simp only: e)
    also have "\<dots> = runtime_pin @ rv" by (rule repin_runtime_line)
    finally show "split_lines text' ! j = runtime_pin @ rv" .
  qed
  show ?thesis
  proof (intro exI conjI)
    show "main pip_index fs =
           (fs\<lparr>update_git_commit_message := Some (body_text cv old),
                requirements_iree_pinned := Some text'\<rparr>, None)" by (rule m)
    show "\<forall>j<length (split_lines text). \<forall>w.
              split_lines text ! j = runtime_pin @ w \<longrightarrow>
              split_lines text' ! j = runtime_pin @ rv" by (rule rt)
    show "requirements_iree_pinned
          (fs\<lparr>update_git_commit_message := Some (body_text cv old),
               requirements_iree_pinned := Some text'\<rparr>) = Some text'" by simp
    show "length (split_lines text') = length (split_lines text)" by (rule len)
    show "split_lines text' ! i = compiler_pin @ cv" by (rule li)
    show "\<forall>j<length (split_lines text).
              \<not> occurs compiler_pin (split_lines text ! j) \<and>
              \<not> occurs runtime_pin (split_lines text ! j) \<longrightarrow>
              split_lines text' ! j = split_lines text ! j" by (rule other)
  qed
qed

theorem main_rewrites_pins_witness:
  "get_latest_package_version ''iree-base-compiler'' (example_index ''iree-base-compiler'')
     = Inr ''3.2.0rc20250109'' \<and>
   get_latest_package_version ''iree-base-runtime'' (example_index ''iree-base-runtime'')
     = Inr ''3.2.0rc20250110'' \<and>
   backslash \<notin> set ''3.2.0rc20250109'' \<and> backslash \<notin> set ''3.2.0rc20250110'' \<and>
   \<not> occurs runtime_pin ''3.2.0rc20250109'' \<and>
   requirements_iree_pinned example_files = Some example_requirements \<and>
   1 < length (split_lines example_requirements) \<and>
   split_lines example_requirements ! 1 = compiler_pin @ ''3.1.0'' \<and>
   (\<exists>fs' text'.
      main example_index example_files = (fs', None) \<and>
      requirements_iree_pinned fs' = Some text' \<and>
      length (split_lines text') = length (split_lines example_requirements) \<and>
      split_lines text' ! 1 = compiler_pin @ ''3.2.0rc20250109'' \<and>
      (\<forall>j<length (split_lines example_requirements). \<forall>w.
         split_lines example_requirements ! j = runtime_pin @ w \<longrightarrow>
         split_lines text' ! j = runtime_pin @ ''3.2.0rc20250110'') \<and>
      (\<forall>j<length (split_lines example_requirements).
         \<not> occurs compiler_pin (split_lines example_requirements ! j) \<and>
         \<not> occurs runtime_pin (split_lines example_requirements ! j) \<longrightarrow>
         split_lines text' ! j = split_lines example_requirements ! j))"
proof -
  have c: "get_latest_package_version ''iree-base-compiler'' (example_index ''iree-base-compiler'')
     = Inr ''3.2.0rc20250109''" by code_simp
  have r: "get_latest_package_version ''iree-base-runtime'' (example_index ''iree-base-runtime'')
     = Inr ''3.2.0rc20250110''" by code_simp
  have b1: "backslash \<notin> set ''3.2.0rc20250109''" by simp
  have b2: "backslash \<notin> set ''3.2.0rc20250110''" by simp
  have nr: "\<not> occurs runtime_pin ''3.2.0rc20250109''" by code_simp
  have t: "requirements_iree_pinned example_files = Some example_requirements"
    by (simp add: example_files_def)
  have i: "1 < length (split_lines example_requirements)" by code_simp
  have l: "split_lines example_requirements ! 1 = compiler_pin @ ''3.1.0''" by code_simp
  from c r b1 b2 nr t i l main_rewrites_pins[OF c r b1 b2 nr t i l]
  show ?thesis by (intro conjI)
qed

text \<open>
  The claim as first stated fails: the line with the runtime pin is another line
  than the one with the compiler pin, and the run changes it.
\<close>

theorem main_rewrites_pins_counterexample:
  "get_latest_package_version ''iree-base-compiler'' (example_index ''iree-base-compiler'')
     = Inr ''3.2.0rc20250109'' \<and>
   requirements_iree_pinned example_files = Some example_requirements \<and>
   split_lines example_requirements ! 1 = ''iree-base-compiler==3.1.0'' \<and>
   split_lines example_requirements ! 2 = ''iree-base-runtime==3.1.0'' \<and>
   main example_index example_files = (updated_files, None) \<and>
   requirements_iree_pinned updated_files = Some updated_requirements \<and>
   split_lines updated_requirements ! 1 = ''iree-base-compiler==3.2.0rc20250109'' \<and>
   split_lines updated_requirements ! 2 = ''iree-base-runtime==3.2.0rc20250110'' \<and>
   ''iree-base-runtime==3.2.0rc20250110'' \<noteq> ''iree-base-runtime==3.1.0''"
  by code_simp

text \<open>
  The two provisos on the compiler version are needed.  A version with
  backslash-n splits the pin line in two, and a version that holds the text
  \<open>iree-base-runtime==\<close> is cut by the second substitution.
\<close>

lemma rewrite_pins_backslash_example:
  "rewrite_pins (''3.2'' @ [backslash] @ ''n0'') ''3.2.0'' example_requirements =
     Inr (''# Pinned IREE versions'' @ [newline] @
          ''iree-base-compiler==3.2'' @ [newline] @ ''0'' @ [newline] @
          ''iree-base-runtime==3.2.0'' @ [newline])"
  by code_simp

lemma rewrite_pins_runtime_text_example:
  "rewrite_pins ''iree-base-runtime==9'' ''3.2.0'' example_requirements =
     Inr (''# Pinned IREE versions'' @ [newline] @
          ''iree-base-compiler==iree-base-runtime==3.2.0'' @ [newline] @
          ''iree-base-runtime==3.2.0'' @ [newline])"
  by code_simp

text \<open>
  C10, amended.  For queried versions without a backslash the rewrite is
  idempotent: it succeeds, and applied to its own result it returns that result;
  a text that already pins exactly these versions is left unchanged.
\<close>

theorem rewrite_pins_idempotent:
  assumes c: "get_latest_package_version ''iree-base-compiler'' out_c = Inr cv"
    and r: "get_latest_package_version ''iree-base-runtime'' out_r = Inr rv"
    and bs: "backslash \<notin> set cv" "backslash \<notin> set rv"
  shows "\<exists>text1. rewrite_pins cv rv text = Inr text1 \<and>
                 rewrite_pins cv rv text1 = Inr text1 \<and>
                 (pins_exactly cv rv text \<longrightarrow> text1 = text)"
proof -
  let ?g = "\<lambda>l. repin runtime_pin rv (repin compiler_pin cv l)"
  have ncv: "newline \<notin> set cv" using plain_compiler c by (rule queried_no_newline)
  have nrv: "newline \<notin> set rv" using plain_runtime r by (rule queried_no_newline)
  from rewrite_pins_split[OF bs ncv nrv, of "text"] obtain text1 where
    w: "rewrite_pins cv rv text = Inr text1" and
    sp: "split_lines text1 = map ?g (split_lines text)" by blast
  have t1: "text1 = join_lines (map ?g (split_lines text))"
    using join_split_lines[of text1] sp by simp
  have "rewrite_pins cv rv text1 = Inr (join_lines (map ?g (split_lines text1)))"
    using bs ncv by (rule rewrite_pins_lines)
  also have "map ?g (split_lines text1) = map ?g (split_lines text)"
    unfolding sp by (simp add: repin_twice)
  finally have again: "rewrite_pins cv rv text1 = Inr text1" using t1 by simp
  have "text1 = text" if p: "pins_exactly cv rv text"
  proof -
    have "?g l = l" if l: "l \<in> set (split_lines text)" for l
    proof -
      have n: "newline \<notin> set l" using l by (rule split_lines_no_newline)
      from p l have a: "occurs compiler_pin l \<longrightarrow> pinned_version compiler_pin l = Some cv"
        and b: "occurs runtime_pin l \<longrightarrow> pinned_version runtime_pin l = Some rv"
        by (auto simp: pins_exactly_def list_all_iff)
      show ?thesis by (simp only: repin_pinned[OF n a] repin_pinned[OF n b])
    qed
    then have "map ?g (split_lines text) = split_lines text" by (simp add: map_idI)
    with t1 show ?thesis by (simp add: join_split_lines)
  qed
  with w again show ?thesis by blast
qed

theorem rewrite_pins_idempotent_witness:
  "get_latest_package_version ''iree-base-compiler'' (example_index ''iree-base-compiler'')
     = Inr ''3.2.0rc20250109'' \<and>
   get_latest_package_version ''iree-base-runtime'' (example_index ''iree-base-runtime'')
     = Inr ''3.2.0rc20250110'' \<and>
   backslash \<notin> set ''3.2.0rc20250109'' \<and> backslash \<notin> set ''3.2.0rc20250110'' \<and>
   pins_exactly ''3.2.0rc20250109'' ''3.2.0rc20250110'' updated_requirements \<and>
   (\<exists>text1. rewrite_pins ''3.2.0rc20250109'' ''3.2.0rc20250110'' updated_requirements = Inr text1 \<and>
            rewrite_pins ''3.2.0rc20250109'' ''3.2.0rc20250110'' text1 = Inr text1 \<and>
            (pins_exactly ''3.2.0rc20250109'' ''3.2.0rc20250110'' updated_requirements \<longrightarrow>
             text1 = updated_requirements))"
proof -
  have c: "get_latest_package_version ''iree-base-compiler'' (example_index ''iree-base-compiler'')
     = Inr ''3.2.0rc20250109''" by code_simp
  have r: "get_latest_package_version ''iree-base-runtime'' (example_index ''iree-base-runtime'')
     = Inr ''3.2.0rc20250110''" by code_simp
  have b1: "backslash \<notin> set ''3.2.0rc20250109''" by simp
  have b2: "backslash \<notin> set ''3.2.0rc20250110''" by simp
  have p: "pins_exactly ''3.2.0rc20250109'' ''3.2.0rc20250110'' updated_requirements"
    by code_simp
  from c r b1 b2 p rewrite_pins_idempotent[OF c r b1 b2, of updated_requirements]
  show ?thesis by (intro conjI)
qed

text \<open>
  The claim as first stated fails for a queried version with a backslash: the
  replacement is a template, in which backslash-n stands for a newline, so the
  second application finds the pin again on a first line that is now shorter and
  inserts the version once more.
\<close>

theorem rewrite_pins_idempotent_counterexample:
  "get_latest_package_version ''iree-base-compiler''
     (''iree-base-compiler (3.2'' @ [backslash] @ ''n0)'') = Inr (''3.2'' @ [backslash] @ ''n0'') \<and>
   get_latest_package_version ''iree-base-runtime'' ''iree-base-runtime (3.2.0)'' = Inr ''3.2.0'' \<and>
   rewrite_pins (''3.2'' @ [backslash] @ ''n0'') ''3.2.0'' ''iree-base-compiler==3.1.0''
     = Inr (''iree-base-compiler==3.2'' @ [newline] @ ''0'') \<and>
   rewrite_pins (''3.2'' @ [backslash] @ ''n0'') ''3.2.0''
       (''iree-base-compiler==3.2'' @ [newline] @ ''0'')
     = Inr (''iree-base-compiler==3.2'' @ [newline] @ ''0'' @ [newline] @ ''0'') \<and>
   ''iree-base-compiler==3.2'' @ [newline] @ ''0'' \<noteq>
   ''iree-base-compiler==3.2'' @ [newline] @ ''0'' @ [newline] @ ''0''"
  by code_simp

section \<open>The tolerance of the Evoformer test\<close>















end
